theory Spec2Isabelle
  imports Main "HOL-Library.Sublist" "HOL-Library.Word"
begin

section \<open>The C library functions the launcher calls\<close>

text \<open>
  A \<^verbatim>\<open>char*\<close> into a NUL-terminated buffer is modelled by the characters from the
  pointer up to the terminator, so a pointer returned by \<^verbatim>\<open>strstr\<close>, \<^verbatim>\<open>strchr\<close> or
  \<^verbatim>\<open>strrchr\<close> is a suffix of the string searched, \<^verbatim>\<open>NULL\<close> is \<open>None\<close>,
  \<^verbatim>\<open>p + 1\<close> is \<open>tl p\<close> and the difference \<^verbatim>\<open>q - p\<close> of two pointers into the
  same string is \<open>length p - length q\<close>.
\<close>

definition NUL :: char where
  "NUL = CHR 0x00"

definition LF :: char where
  "LF = CHR 0x0A"

definition CR :: char where
  "CR = CHR 0x0D"

definition DQUOTE :: char where
  "DQUOTE = CHR 0x22"

definition BACKSLASH :: char where
  "BACKSLASH = CHR 0x5C"

text \<open>The C string held by a byte buffer: the bytes before the first NUL.\<close>

definition cstr :: "string \<Rightarrow> string" where
  "cstr buf = takeWhile (\<lambda>c. c \<noteq> NUL) buf"

definition strlen :: "string \<Rightarrow> nat" where
  "strlen s = length s"

fun strchr :: "string \<Rightarrow> char \<Rightarrow> string option" where
  "strchr [] c = None"
| "strchr (x # xs) c = (if x = c then Some (x # xs) else strchr xs c)"

fun strrchr :: "string \<Rightarrow> char \<Rightarrow> string option" where
  "strrchr [] c = None"
| "strrchr (x # xs) c =
     (case strrchr xs c of
        Some r \<Rightarrow> Some r
      | None \<Rightarrow> if x = c then Some (x # xs) else None)"

fun strstr :: "string \<Rightarrow> string \<Rightarrow> string option" where
  "strstr [] needle = (if needle = [] then Some [] else None)"
| "strstr (x # xs) needle =
     (if prefix needle (x # xs) then Some (x # xs) else strstr xs needle)"

text \<open>\<^verbatim>\<open>strcmp\<close> compares byte by byte, as unsigned values; only its sign matters.\<close>

fun strcmp :: "string \<Rightarrow> string \<Rightarrow> int" where
  "strcmp [] [] = 0"
| "strcmp [] (b # bs) = - 1"
| "strcmp (a # as) [] = 1"
| "strcmp (a # as) (b # bs) =
     (if a = b then strcmp as bs
      else if (of_char a :: nat) < of_char b then - 1 else 1)"

text \<open>
  The checked functions of the C runtime (\<^verbatim>\<open>strcpy_s\<close>, \<^verbatim>\<open>sprintf_s\<close>) call the
  invalid-parameter handler when the result and its terminator do not fit the
  destination; the handler ends the process.
\<close>

datatype error = Invalid_parameter

definition strcpy_s :: "nat \<Rightarrow> string \<Rightarrow> error + string" where
  "strcpy_s sz src = (if length src < sz then Inr src else Inl Invalid_parameter)"

definition sprintf_s :: "nat \<Rightarrow> string \<Rightarrow> error + string" where
  "sprintf_s sz formatted =
     (if length formatted < sz then Inr formatted else Inl Invalid_parameter)"

definition bind_err :: "error + 'a \<Rightarrow> ('a \<Rightarrow> error + 'b) \<Rightarrow> error + 'b" where
  "bind_err m f = (case m of Inl e \<Rightarrow> Inl e | Inr x \<Rightarrow> f x)"

text \<open>
  \<^verbatim>\<open>fgets(buf, n, file)\<close> stores at most \<open>n - 1\<close> characters, stops after a newline,
  which it stores, and returns \<^verbatim>\<open>NULL\<close>, leaving the buffer as it was, when the
  stream is at its end before any character was read. The stream is the file as
  the text-mode read delivers it.
\<close>

fun fgets_chars :: "nat \<Rightarrow> string \<Rightarrow> string" where
  "fgets_chars 0 cs = []"
| "fgets_chars (Suc n) [] = []"
| "fgets_chars (Suc n) (c # cs) = (if c = LF then [c] else c # fgets_chars n cs)"

definition fgets :: "nat \<Rightarrow> string \<Rightarrow> string option" where
  "fgets n stream =
     (let got = fgets_chars (n - 1) stream in if got = [] then None else Some got)"

section \<open>The launcher's data\<close>

definition MAIN_EXE :: string where
  "MAIN_EXE = ''workspace.exe''"

definition VERSION_FILE :: string where
  "VERSION_FILE = ''version.txt''"

definition BUFFER_SIZE :: nat where
  "BUFFER_SIZE = 8192"

definition MAX_PATH_LEN :: nat where
  "MAX_PATH_LEN = 512"

text \<open>
  \<^verbatim>\<open>ReleaseInfo\<close>: three character arrays of 32, 512 and 128 bytes. Each field holds
  the C string stored in its array.
\<close>

record ReleaseInfo =
  version :: string
  download_url :: string
  filename :: string

definition sizeof_version :: nat where
  "sizeof_version = 32"

definition sizeof_download_url :: nat where
  "sizeof_download_url = 512"

definition sizeof_filename :: nat where
  "sizeof_filename = 128"

section \<open>ReadVersionFile\<close>

text \<open>
  The loop of \<^verbatim>\<open>ReadVersionFile\<close> that writes a terminator over each trailing
  \<^verbatim>\<open>'\n'\<close> or \<^verbatim>\<open>'\r'\<close>: \<^verbatim>\<open>version[--len] = '\0'\<close> drops the last character.
\<close>

function strip_line_end :: "string \<Rightarrow> string" where
  "strip_line_end v =
     (if strlen v > 0 \<and> (last v = LF \<or> last v = CR)
      then strip_line_end (butlast v) else v)"
  by pat_completeness auto
termination
  by (relation "measure length") (auto simp: strlen_def)

declare strip_line_end.simps [simp del]

text \<open>
  \<^verbatim>\<open>ReadVersionFile(path, version, size)\<close>, with \<open>sz\<close> for \<^verbatim>\<open>size\<close>. The file
  at \<open>path\<close> is \<open>None\<close> when \<^verbatim>\<open>fopen\<close> fails and its character stream otherwise;
  \<open>buf\<close> is what the caller's \<^verbatim>\<open>version\<close> buffer holds before the call. The result
  is the returned \<^verbatim>\<open>BOOL\<close> and the buffer's string after the call.
  \<^verbatim>\<open>memmove(version, version + 1, len)\<close> moves the string one place down, terminator
  included. When \<^verbatim>\<open>fgets\<close> returns \<^verbatim>\<open>NULL\<close> the buffer is left as it was.
\<close>

definition ReadVersionFile :: "string option \<Rightarrow> string \<Rightarrow> nat \<Rightarrow> error + (bool \<times> string)" where
  "ReadVersionFile file buf sz =
     (case file of
        None \<Rightarrow> bind_err (strcpy_s sz ''0.0.0'') (\<lambda>v. Inr (False, v))
      | Some stream \<Rightarrow>
          (case fgets sz stream of
             None \<Rightarrow> Inr (True, buf)
           | Some line \<Rightarrow>
               (let v = strip_line_end (cstr line)
                in Inr (True, if v \<noteq> [] \<and> hd v = CHR ''v'' then tl v else v))))"

section \<open>The network\<close>

text \<open>
  A connection is the list of what the successive reads on it will find: a failure, or
  the bytes the peer has ready (none at the end of the data). One
  \<^verbatim>\<open>InternetReadFile(h, buffer, n, &bytesRead)\<close> returns its \<^verbatim>\<open>BOOL\<close>, the bytes it
  stored, at most \<open>n\<close> of them, and the connection as it is afterwards; bytes that
  did not fit stay for the next read.
\<close>

datatype read_result = Read_fail | Read_ok string

fun InternetReadFile :: "read_result list \<Rightarrow> nat \<Rightarrow> bool \<times> string \<times> read_result list" where
  "InternetReadFile [] n = (True, [], [])"
| "InternetReadFile (Read_fail # rest) n = (False, [], rest)"
| "InternetReadFile (Read_ok bytes # rest) n =
     (True, take n bytes,
      if length bytes \<le> n then rest else Read_ok (drop n bytes) # rest)"

text \<open>
  What one request meets: whether \<^verbatim>\<open>InternetOpenA\<close> and \<^verbatim>\<open>InternetOpenUrlA\<close>
  return a handle, and the connection behind the second handle.
\<close>

record network =
  session_opens :: bool
  url_opens :: bool
  reads :: "read_result list"

section \<open>CheckForUpdates\<close>

definition tag_name_key :: string where
  "tag_name_key = DQUOTE # ''tag_name'' @ [DQUOTE]"

definition browser_download_url_key :: string where
  "browser_download_url_key = DQUOTE # ''browser_download_url'' @ [DQUOTE]"

text \<open>
  The search for the tag (lines 102 to 124): the first \<^verbatim>\<open>"tag_name"\<close>, the next
  \<^verbatim>\<open>':'\<close>, the next quoted string; it is stored when it is shorter than the
  \<^verbatim>\<open>version\<close> array, and then loses one leading \<^verbatim>\<open>'v'\<close>. In every other case
  \<^verbatim>\<open>release\<close> stays as it was.
\<close>

definition parse_tag_name :: "string \<Rightarrow> ReleaseInfo \<Rightarrow> ReleaseInfo" where
  "parse_tag_name buffer release =
     (case strstr buffer tag_name_key of
        None \<Rightarrow> release
      | Some tag_name \<Rightarrow>
          (case strchr tag_name CHR '':'' of
             None \<Rightarrow> release
           | Some colon \<Rightarrow>
               (case strchr colon DQUOTE of
                  None \<Rightarrow> release
                | Some quote \<Rightarrow>
                    (let start = tl quote in
                     case strchr start DQUOTE of
                       None \<Rightarrow> release
                     | Some end \<Rightarrow>
                         (let len = length start - length end in
                          if len < sizeof_version then
                            (let v = take len start in
                             release\<lparr>version :=
                               if v \<noteq> [] \<and> hd v = CHR ''v'' then tl v else v\<rparr>)
                          else release)))))"

text \<open>
  The body of the asset loop (lines 129 to 156) at one occurrence of
  \<^verbatim>\<open>"browser_download_url"\<close>. \<open>Some\<close> is the \<^verbatim>\<open>break\<close> with \<^verbatim>\<open>result = TRUE\<close>,
  \<open>None\<close> is falling through to the next occurrence. The test for \<^verbatim>\<open>".exe"\<close> is
  \<^verbatim>\<open>strstr(url_start, ".exe")\<close>: it searches from the start of the value to the
  end of the buffer.
\<close>

definition asset_at :: "string \<Rightarrow> ReleaseInfo \<Rightarrow> (error + ReleaseInfo) option" where
  "asset_at browser_download release =
     (case strchr browser_download CHR '':'' of
        None \<Rightarrow> None
      | Some colon \<Rightarrow>
          (case strchr colon DQUOTE of
             None \<Rightarrow> None
           | Some quote \<Rightarrow>
               (let url_start = tl quote in
                case strchr url_start DQUOTE of
                  None \<Rightarrow> None
                | Some url_end \<Rightarrow>
                    if strstr url_start ''.exe'' \<noteq> None then
                      (let url_len = length url_start - length url_end in
                       if url_len < sizeof_download_url then
                         (let release = release\<lparr>download_url := take url_len url_start\<rparr> in
                          case strrchr (download_url release) CHR ''/'' of
                            None \<Rightarrow> Some (Inr release)
                          | Some slash \<Rightarrow>
                              Some (bind_err (strcpy_s sizeof_filename (tl slash))
                                     (\<lambda>name. Inr (release\<lparr>filename := name\<rparr>))))
                       else None)
                    else None)))"

lemma length_strstr:
  "strstr s needle = Some r \<Longrightarrow> length r \<le> length s"
  by (induction s) (auto split: if_splits)

text \<open>
  The loop \<^verbatim>\<open>while (browser_download)\<close> (lines 127 to 158). The result is
  \<^verbatim>\<open>result\<close> and \<^verbatim>\<open>release\<close> when the loop is left.
\<close>

function find_exe_asset :: "string option \<Rightarrow> ReleaseInfo \<Rightarrow> error + (bool \<times> ReleaseInfo)" where
  "find_exe_asset None release = Inr (False, release)"
| "find_exe_asset (Some browser_download) release =
     (case asset_at browser_download release of
        Some found \<Rightarrow> bind_err found (\<lambda>release. Inr (True, release))
      | None \<Rightarrow>
          find_exe_asset (strstr (tl browser_download) browser_download_url_key) release)"
  by pat_completeness auto
termination
proof (relation "measure (\<lambda>(p, r). case p of None \<Rightarrow> 0 | Some s \<Rightarrow> Suc (length s))")
  show "wf (measure (\<lambda>(p, r). case p of None \<Rightarrow> 0 | Some s \<Rightarrow> Suc (length (s::string))))"
    by simp
next
  fix browser_download :: string and release :: ReleaseInfo
  show "((strstr (tl browser_download) browser_download_url_key, release),
         (Some browser_download, release))
        \<in> measure (\<lambda>(p, r). case p of None \<Rightarrow> 0 | Some s \<Rightarrow> Suc (length s))"
  proof (cases "strstr (tl browser_download) browser_download_url_key")
    case None
    then show ?thesis by simp
  next
    case (Some r)
    then have le: "length r \<le> length (tl browser_download)"
      by (rule length_strstr)
    have "browser_download \<noteq> []"
      using Some by (auto simp: browser_download_url_key_def)
    then have "length (tl browser_download) < length browser_download"
      by (cases browser_download) simp_all
    with le Some show ?thesis by simp
  qed
qed

declare find_exe_asset.simps(2) [simp del]

text \<open>
  The scan of the answer (lines 99 to 158): the buffer is terminated after the bytes
  read, so the searches see the bytes before the first NUL.
\<close>

definition scan_feed :: "string \<Rightarrow> ReleaseInfo \<Rightarrow> error + (bool \<times> ReleaseInfo)" where
  "scan_feed bytes release =
     (let buffer = cstr bytes;
          release = parse_tag_name buffer release
      in find_exe_asset (strstr buffer browser_download_url_key) release)"

text \<open>
  Lines 81 to 163: \<^verbatim>\<open>result\<close> and \<^verbatim>\<open>release\<close> at the label \<^verbatim>\<open>cleanup\<close>. There is
  one read, of at most \<^verbatim>\<open>sizeof(buffer) - 1\<close> bytes.
\<close>

definition fetch_release :: "network \<Rightarrow> ReleaseInfo \<Rightarrow> error + (bool \<times> ReleaseInfo)" where
  "fetch_release net release =
     (if \<not> session_opens net then Inr (False, release)
      else if \<not> url_opens net then Inr (False, release)
      else
        (case InternetReadFile (reads net) (BUFFER_SIZE - 1) of
           (ok, bytes, rest) \<Rightarrow>
             (let bytesRead = (of_nat (length bytes) :: 32 word) in
              if ok \<and> bytesRead > 0 then scan_feed bytes release
              else Inr (False, release))))"

text \<open>Line 165: \<^verbatim>\<open>result && strcmp(release->version, current_version) != 0\<close>.\<close>

definition update_wanted :: "bool \<Rightarrow> ReleaseInfo \<Rightarrow> string \<Rightarrow> bool" where
  "update_wanted result release current_version =
     (result \<and> strcmp (version release) current_version \<noteq> 0)"

definition CheckForUpdates :: "network \<Rightarrow> string \<Rightarrow> ReleaseInfo \<Rightarrow> error + (bool \<times> ReleaseInfo)" where
  "CheckForUpdates net current_version release =
     bind_err (fetch_release net release)
       (\<lambda>(result, release). Inr (update_wanted result release current_version, release))"

section \<open>DownloadFile\<close>

text \<open>
  The termination measure of the read loop: what is left on the connection.
\<close>

fun pending :: "read_result list \<Rightarrow> nat" where
  "pending [] = 0"
| "pending (Read_fail # rest) = Suc (pending rest)"
| "pending (Read_ok bytes # rest) = Suc (length bytes + pending rest)"

lemma pending_InternetReadFile:
  assumes "InternetReadFile conn n = (True, buffer, rest)" and "buffer \<noteq> []"
  shows "pending rest < pending conn"
proof (cases conn)
  case Nil
  with assms show ?thesis by simp
next
  case (Cons r rs)
  show ?thesis
  proof (cases r)
    case Read_fail
    with Cons assms show ?thesis by simp
  next
    case (Read_ok bytes)
    with Cons assms have "n \<noteq> 0" and "bytes \<noteq> []"
      by auto
    with Cons Read_ok assms show ?thesis
      by (auto split: if_splits)
  qed
qed

text \<open>
  The loop of lines 187 to 197. The state is the connection, the bytes of the
  destination file, \<^verbatim>\<open>totalBytes\<close> (a \<^verbatim>\<open>DWORD\<close>) and the counts the progress
  window was given: \<^verbatim>\<open>SetWindowTextA\<close> shows \<^verbatim>\<open>totalBytes\<close> as megabytes, and the
  model records the \<^verbatim>\<open>totalBytes\<close> the text is made from. \<open>hwnd\<close> tells whether
  the window handle is not \<^verbatim>\<open>NULL\<close>. \<^verbatim>\<open>fwrite\<close> appends its \<^verbatim>\<open>bytesRead\<close> bytes
  to the file; its return value is not looked at by the source, and the model
  takes every write to be complete.
\<close>

function download_loop ::
  "read_result list \<Rightarrow> bool \<Rightarrow> string \<Rightarrow> 32 word \<Rightarrow> 32 word list
     \<Rightarrow> string \<times> 32 word \<times> 32 word list" where
  "download_loop conn hwnd file totalBytes shown =
     (case InternetReadFile conn BUFFER_SIZE of
        (ok, buffer, rest) \<Rightarrow>
          (let bytesRead = (of_nat (length buffer) :: 32 word) in
           if ok \<and> bytesRead > 0 then
             (let file = file @ take (unat bytesRead) buffer;
                  totalBytes = totalBytes + bytesRead;
                  shown = (if hwnd then shown @ [totalBytes] else shown)
              in download_loop rest hwnd file totalBytes shown)
           else (file, totalBytes, shown)))"
  by pat_completeness auto
termination
proof (relation "measure (\<lambda>(conn, hwnd, file, totalBytes, shown). pending conn)")
  show "wf (measure (\<lambda>(conn :: read_result list, hwnd :: bool, file :: string,
                       totalBytes :: 32 word, shown :: 32 word list). pending conn))"
    by simp
next
  fix conn :: "read_result list" and hwnd :: bool and dest :: string
    and totalBytes :: "32 word" and shown :: "32 word list"
    and ok :: bool and y :: "string \<times> read_result list" and buffer :: string
    and rest :: "read_result list" and bytesRead :: "32 word"
    and dest' :: string and totalBytes' :: "32 word" and shown' :: "32 word list"
  assume "(ok, y) = InternetReadFile conn BUFFER_SIZE"
    and "(buffer, rest) = y" and "bytesRead = of_nat (length buffer)"
    and "ok \<and> 0 < bytesRead"
  then have "InternetReadFile conn BUFFER_SIZE = (True, buffer, rest)" and "buffer \<noteq> []"
    by auto
  then have "pending rest < pending conn"
    by (rule pending_InternetReadFile)
  then show "((rest, hwnd, dest', totalBytes', shown'), conn, hwnd, dest, totalBytes, shown)
      \<in> measure (\<lambda>(conn, hwnd, file, totalBytes, shown). pending conn)"
    by simp
qed

declare download_loop.simps [simp del]

text \<open>
  \<^verbatim>\<open>DownloadFile(url, dest_path, hwnd)\<close>: \<open>net\<close> is what the request for \<open>url\<close>
  meets and \<open>file_opens\<close> tells whether \<^verbatim>\<open>fopen_s\<close> opens \<open>dest_path\<close>. The result
  is the returned \<^verbatim>\<open>BOOL\<close>, the bytes of the destination file (\<open>None\<close> when it was
  not opened) and the counts the progress window was given.
\<close>

definition DownloadFile :: "network \<Rightarrow> bool \<Rightarrow> bool \<Rightarrow> bool \<times> string option \<times> 32 word list" where
  "DownloadFile net file_opens hwnd =
     (if \<not> session_opens net then (False, None, [])
      else if \<not> url_opens net then (False, None, [])
      else if \<not> file_opens then (False, None, [])
      else
        (case download_loop (reads net) hwnd [] 0 [] of
           (file, totalBytes, shown) \<Rightarrow> (True, Some file, shown)))"

section \<open>The processes and the dialogs\<close>

text \<open>
  What the launcher does to the outside, in the order it does it: the message boxes,
  the download and the two calls of \<^verbatim>\<open>CreateProcessA\<close>.
\<close>

datatype event =
    Error_box string
  | Update_dialog string
  | Download string string "string option" "32 word list"
  | Installer_process string
  | Main_app_process string string

datatype answer = IDYES | IDNO

text \<open>
  \<^verbatim>\<open>GetAppDirectory(buffer, size)\<close>. \<open>module\<close> is the path \<^verbatim>\<open>GetModuleFileNameA\<close>
  finds, \<open>None\<close> when it fails; it stores at most \<open>sz - 1\<close> characters and
  returns their number, and 0 is taken as failure. \<^verbatim>\<open>*last_slash = '\0'\<close> cuts the
  buffer at the last backslash.
\<close>

definition cut_at :: "string \<Rightarrow> string \<Rightarrow> string" where
  "cut_at buffer p = take (length buffer - length p) buffer"

definition GetAppDirectory :: "string option \<Rightarrow> nat \<Rightarrow> string option" where
  "GetAppDirectory module sz =
     (case module of
        None \<Rightarrow> None
      | Some path \<Rightarrow>
          (let buffer = take (sz - 1) path in
           if length buffer = 0 then None
           else
             (case strrchr buffer BACKSLASH of
                Some last_slash \<Rightarrow> Some (cut_at buffer last_slash)
              | None \<Rightarrow> Some buffer)))"

definition ShowError :: "string \<Rightarrow> event" where
  "ShowError message = Error_box message"

definition ShowUpdateDialog :: "string \<Rightarrow> string \<Rightarrow> answer \<Rightarrow> error + (answer \<times> event)" where
  "ShowUpdateDialog current_ver new_ver pressed =
     bind_err
       (sprintf_s 512
          (''A new version '' @ new_ver @ '' is available.'' @ [LF] @
           ''Current version: '' @ current_ver @ [LF, LF] @ ''Update now?''))
       (\<lambda>message. Inr (pressed, Update_dialog message))"

text \<open>
  \<^verbatim>\<open>LaunchInstaller\<close> and \<^verbatim>\<open>LaunchMainApp\<close>: \<open>starts\<close> tells whether
  \<^verbatim>\<open>CreateProcessA\<close> succeeds. The result is the returned \<^verbatim>\<open>BOOL\<close> and the call made.
\<close>

definition LaunchInstaller :: "string \<Rightarrow> bool \<Rightarrow> error + (bool \<times> event)" where
  "LaunchInstaller installer_path starts =
     bind_err
       (sprintf_s (MAX_PATH_LEN * 2)
          ([DQUOTE] @ installer_path @ [DQUOTE] @ '' /UPDATE /SILENT''))
       (\<lambda>cmdline. Inr (starts, Installer_process cmdline))"

definition LaunchMainApp :: "string \<Rightarrow> bool \<Rightarrow> error + (bool \<times> event)" where
  "LaunchMainApp exe_path starts =
     bind_err (strcpy_s MAX_PATH_LEN exe_path)
       (\<lambda>dir.
          (let dir = (case strrchr dir BACKSLASH of
                        Some last_slash \<Rightarrow> cut_at dir last_slash
                      | None \<Rightarrow> dir)
           in Inr (starts, Main_app_process exe_path dir)))"

section \<open>WinMain\<close>

text \<open>
  Everything outside the launcher that one run meets. \<open>stack_bytes\<close> is the string in
  the array \<^verbatim>\<open>current_version\<close> before anything is stored there: the array is not
  initialised.
\<close>

record environment =
  module_file_name :: "string option"
  version_file :: "string option"
  stack_bytes :: string
  feed :: network
  pressed :: answer
  temp_path :: string
  window_created :: bool
  installer_net :: network
  installer_file_opens :: bool
  installer_starts :: bool
  main_app_starts :: bool

text \<open>
  Lines 291 to 324, entered when \<^verbatim>\<open>CheckForUpdates\<close> returned \<^verbatim>\<open>TRUE\<close>. The result is
  what was done and the exit code when the block returns from \<^verbatim>\<open>WinMain\<close>;
  \<open>None\<close> is leaving the block at its end, on to line 326.
\<close>

definition offer_update ::
  "environment \<Rightarrow> string \<Rightarrow> ReleaseInfo \<Rightarrow> error + (event list \<times> int option)" where
  "offer_update env current_version release =
     bind_err (ShowUpdateDialog current_version (version release) (pressed env))
       (\<lambda>(choice, dialog).
          if choice = IDYES then
            bind_err (sprintf_s MAX_PATH_LEN (temp_path env @ filename release))
              (\<lambda>installer_path.
                 (let hwnd = window_created env in
                  case DownloadFile (installer_net env) (installer_file_opens env) hwnd of
                    (downloaded, file, shown) \<Rightarrow>
                      (let download = Download (download_url release) installer_path file shown in
                       if downloaded then
                         bind_err (LaunchInstaller installer_path (installer_starts env))
                           (\<lambda>(launched, process).
                              if launched then Inr ([dialog, download, process], Some 0)
                              else Inr ([dialog, download, process,
                                         ShowError ''Failed to launch installer''], None))
                       else Inr ([dialog, download,
                                  ShowError ''Failed to download update''], None))))
          else Inr ([dialog], None))"

text \<open>
  \<^verbatim>\<open>WinMain\<close>: what was done, in order, and the exit code; \<open>Inl\<close> when a checked
  runtime function ends the process.
\<close>

definition WinMain :: "environment \<Rightarrow> error + (event list \<times> int)" where
  "WinMain env =
     (case GetAppDirectory (module_file_name env) MAX_PATH_LEN of
        None \<Rightarrow> Inr ([ShowError ''Failed to get application directory''], 1)
      | Some app_dir \<Rightarrow>
          bind_err (sprintf_s MAX_PATH_LEN (app_dir @ [BACKSLASH] @ VERSION_FILE))
            (\<lambda>version_path.
          bind_err (ReadVersionFile (version_file env) (stack_bytes env) 32)
            (\<lambda>(opened, current_version).
          bind_err (CheckForUpdates (feed env) current_version
                      \<lparr>version = [], download_url = [], filename = []\<rparr>)
            (\<lambda>(update, release).
          bind_err (if update then offer_update env current_version release
                    else Inr ([], None))
            (\<lambda>(events, returned).
               case returned of
                 Some code \<Rightarrow> Inr (events, code)
               | None \<Rightarrow>
                   bind_err (sprintf_s MAX_PATH_LEN (app_dir @ [BACKSLASH] @ MAIN_EXE))
                     (\<lambda>exe_path.
                   bind_err (LaunchMainApp exe_path (main_app_starts env))
                     (\<lambda>(launched, process).
                        if \<not> launched then
                          Inr (events @ [process, ShowError (''Failed to launch '' @ MAIN_EXE)], 1)
                        else Inr (events @ [process], 0))))))))"

section \<open>The words of the specification\<close>

text \<open>
  The specification describes the version read from the marker file as its first line
  without the trailing line-ending characters and without one leading \<^verbatim>\<open>v\<close>. These
  three functions say that in the ordinary list vocabulary; the theorems below compare
  them with \<^const>\<open>ReadVersionFile\<close>.
\<close>

definition first_line :: "string \<Rightarrow> string" where
  "first_line stream = takeWhile (\<lambda>c. c \<noteq> LF) stream"

definition strip_trailing_line_endings :: "string \<Rightarrow> string" where
  "strip_trailing_line_endings s = rev (dropWhile (\<lambda>c. c = LF \<or> c = CR) (rev s))"

definition strip_leading_v :: "string \<Rightarrow> string" where
  "strip_leading_v s = (case s of [] \<Rightarrow> [] | c # cs \<Rightarrow> if c = CHR ''v'' then cs else s)"

section \<open>An example run\<close>

text \<open>
  The scenario the specification ends with: the marker file holds \<^verbatim>\<open>v1.2.0\<close>, the feed
  answers with the tag \<^verbatim>\<open>v1.3.0\<close> and one \<^verbatim>\<open>.exe\<close> asset. Here the user accepts, the
  installer arrives in two reads and both processes can be started; the theorems
  change one field at a time.
\<close>

definition example_feed :: string where
  "example_feed =
     ''{\"tag_name\": \"v1.3.0\", \"assets\": [{\"browser_download_url\": \"https://x/y/app-1.3.0.exe\"}]}''"

definition example_env :: environment where
  "example_env =
     \<lparr>module_file_name = Some (''C:'' @ [BACKSLASH] @ ''App'' @ [BACKSLASH] @ ''launcher.exe''),
      version_file = Some (''v1.2.0'' @ [LF]),
      stack_bytes = [],
      feed = \<lparr>session_opens = True, url_opens = True, reads = [Read_ok example_feed]\<rparr>,
      pressed = IDYES,
      temp_path = ''C:'' @ [BACKSLASH] @ ''Temp'' @ [BACKSLASH],
      window_created = True,
      installer_net =
        \<lparr>session_opens = True, url_opens = True, reads = [Read_ok ''MZ'', Read_ok ''PE'']\<rparr>,
      installer_file_opens = True,
      installer_starts = True,
      main_app_starts = True\<rparr>"

definition example_dialog :: event where
  "example_dialog =
     Update_dialog (''A new version 1.3.0 is available.'' @ [LF] @
                    ''Current version: 1.2.0'' @ [LF, LF] @ ''Update now?'')"

definition example_installer_path :: string where
  "example_installer_path = ''C:'' @ [BACKSLASH] @ ''Temp'' @ [BACKSLASH] @ ''app-1.3.0.exe''"

definition example_cmdline :: string where
  "example_cmdline = [DQUOTE] @ example_installer_path @ [DQUOTE] @ '' /UPDATE /SILENT''"

definition example_main_app_process :: event where
  "example_main_app_process =
     Main_app_process (''C:'' @ [BACKSLASH] @ ''App'' @ [BACKSLASH] @ ''workspace.exe'')
       (''C:'' @ [BACKSLASH] @ ''App'')"

text \<open>A connection on which the second read fails, after two bytes have arrived.\<close>

definition broken_net :: network where
  "broken_net =
     \<lparr>session_opens = True, url_opens = True,
      reads = [Read_ok ''MZ'', Read_fail, Read_ok ''PE'']\<rparr>"

text \<open>
  Three more feeds: one without a tag, one whose first asset is no \<^verbatim>\<open>.exe\<close> and whose
  second is, and one whose only asset is no \<^verbatim>\<open>.exe\<close> while the text \<^verbatim>\<open>.exe\<close> stands
  further on.
\<close>

definition untagged_feed :: string where
  "untagged_feed =
     ''{\"assets\": [{\"browser_download_url\": \"https://x/y/app-1.3.0.exe\"}]}''"

definition zip_then_exe_feed :: string where
  "zip_then_exe_feed =
     ''{\"tag_name\": \"v1.3.0\", \"assets\": [{\"browser_download_url\": \"https://x/y/notes.zip\"}, {\"browser_download_url\": \"https://x/y/app-1.3.0.exe\"}]}''"

definition zip_only_feed :: string where
  "zip_only_feed =
     ''{\"tag_name\": \"v1.3.0\", \"assets\": [{\"browser_download_url\": \"https://x/y/notes.zip\"}], \"body\": \"run setup.exe\"}''"

definition no_release :: ReleaseInfo where
  "no_release = \<lparr>version = [], download_url = [], filename = []\<rparr>"

section \<open>Auxiliary notions of the proofs\<close>

definition is_line_end :: "char \<Rightarrow> bool" where
  "is_line_end c = (c = LF \<or> c = CR)"

text \<open>
  The buffers the loop of \<^verbatim>\<open>DownloadFile\<close> writes, one for each turn of the loop, and
  the values \<^verbatim>\<open>totalBytes\<close> takes after each of them, starting from a given value.
\<close>

function chunks_read :: "read_result list \<Rightarrow> string list" where
  "chunks_read conn =
     (case InternetReadFile conn BUFFER_SIZE of
        (ok, buffer, rest) \<Rightarrow> if ok \<and> buffer \<noteq> [] then buffer # chunks_read rest else [])"
  by pat_completeness auto
termination
proof (relation "measure pending")
  show "wf (measure pending)" by simp
next
  fix conn :: "read_result list" and ok :: bool and y :: "string \<times> read_result list"
    and buffer :: string and rest :: "read_result list"
  assume "(ok, y) = InternetReadFile conn BUFFER_SIZE" and "(buffer, rest) = y"
    and "ok \<and> buffer \<noteq> []"
  then have "InternetReadFile conn BUFFER_SIZE = (True, buffer, rest)" and "buffer \<noteq> []"
    by auto
  then have "pending rest < pending conn"
    by (rule pending_InternetReadFile)
  then show "(rest, conn) \<in> measure pending"
    by simp
qed

declare chunks_read.simps [simp del]

fun reports :: "32 word \<Rightarrow> string list \<Rightarrow> 32 word list" where
  "reports totalBytes [] = []"
| "reports totalBytes (c # cs) =
     (totalBytes + of_nat (length c)) # reports (totalBytes + of_nat (length c)) cs"

text \<open>
  What the source delivers: the bytes that arrive before the first failed read, the
  first read without bytes, or the end of the connection.
\<close>

fun delivered :: "read_result list \<Rightarrow> string" where
  "delivered [] = []"
| "delivered (Read_fail # rest) = []"
| "delivered (Read_ok bytes # rest) = (if bytes = [] then [] else bytes @ delivered rest)"

text \<open>A download of 4 GiB: 524288 reads of 8192 bytes each.\<close>

definition four_gib_net :: network where
  "four_gib_net =
     \<lparr>session_opens = True, url_opens = True,
      reads = replicate 524288 (Read_ok (replicate 8192 (CHR ''a'')))\<rparr>"

text \<open>The connection of the example run.\<close>

definition example_net :: network where
  "example_net =
     \<lparr>session_opens = True, url_opens = True, reads = [Read_ok ''MZ'', Read_ok ''PE'']\<rparr>"

section \<open>The version read from the marker file\<close>

lemma strip_line_end_eq: "strip_line_end v = rev (dropWhile is_line_end (rev v))"
proof (induction v rule: strip_line_end.induct)
  case (1 v)
  show ?case
  proof (cases "strlen v > 0 \<and> (last v = LF \<or> last v = CR)")
    case True
    then have ne: "v \<noteq> []" by (auto simp: strlen_def)
    then have v: "v = butlast v @ [last v]" by simp
    have "strip_line_end v = strip_line_end (butlast v)"
      using True by (subst strip_line_end.simps) simp
    also have "\<dots> = rev (dropWhile is_line_end (rev (butlast v)))"
      using True by (rule "1.IH")
    also have "\<dots> = rev (dropWhile is_line_end (rev v))"
      using True by (subst (2) v) (simp add: is_line_end_def)
    finally show ?thesis .
  next
    case False
    have "strip_line_end v = v"
      by (subst strip_line_end.simps) (use False in auto)
    moreover have "rev (dropWhile is_line_end (rev v)) = v"
    proof (cases "v = []")
      case True then show ?thesis by simp
    next
      case ne: False
      then have v: "v = butlast v @ [last v]" by simp
      have "\<not> is_line_end (last v)"
        using False ne by (auto simp: strlen_def is_line_end_def)
      then show ?thesis by (subst (2) v, subst (1) v) simp
    qed
    ultimately show ?thesis by simp
  qed
qed

lemma strip_line_end_Cons:
  "strip_line_end (c # cs) =
     (if strip_line_end cs = [] then (if is_line_end c then [] else [c])
      else c # strip_line_end cs)"
  by (simp add: strip_line_end_eq dropWhile_append)

lemma cstr_Cons: "cstr (c # cs) = (if c = NUL then [] else c # cstr cs)"
  by (simp add: cstr_def)

lemma cstr_Nil: "cstr [] = []"
  by (simp add: cstr_def)

lemma strip_line_end_Nil: "strip_line_end [] = []"
  by (simp add: strip_line_end_eq)

lemma fgets_chars_line:
  "strip_line_end (cstr (fgets_chars n s)) =
   strip_line_end (cstr (take n (takeWhile (\<lambda>c. c \<noteq> LF) s)))"
proof (induction n s rule: fgets_chars.induct)
  case (3 n c cs)
  then show ?case
    by (simp add: cstr_Cons cstr_Nil strip_line_end_Cons strip_line_end_Nil is_line_end_def
        NUL_def LF_def)
qed (simp_all add: cstr_Nil)

lemma fgets_chars_Nil_iff: "fgets_chars n s = [] \<longleftrightarrow> n = 0 \<or> s = []"
  by (induction n s rule: fgets_chars.induct) auto

lemma fgets_chars_take: "fgets_chars n (take n s) = fgets_chars n s"
  by (induction n s rule: fgets_chars.induct) auto

lemma strip_line_end_spec: "strip_line_end v = strip_trailing_line_endings v"
proof -
  have "is_line_end = (\<lambda>c. c = LF \<or> c = CR)"
    by (rule ext) (simp add: is_line_end_def)
  then show ?thesis
    by (simp add: strip_line_end_eq strip_trailing_line_endings_def)
qed

lemma strip_v_spec: "(if v \<noteq> [] \<and> hd v = CHR ''v'' then tl v else v) = strip_leading_v v"
  by (cases v) (simp_all add: strip_leading_v_def)

lemma ReadVersionFile_opened:
  assumes "stream \<noteq> []"
  shows "ReadVersionFile (Some stream) buf 32 =
    Inr (True, strip_leading_v (strip_trailing_line_endings (cstr (take 31 (first_line stream)))))"
proof -
  have "fgets_chars 31 stream \<noteq> []"
    using assms by (simp add: fgets_chars_Nil_iff)
  then have "fgets 32 stream = Some (fgets_chars 31 stream)"
    by (simp add: fgets_def)
  moreover have "strip_line_end (cstr (fgets_chars 31 stream)) =
      strip_trailing_line_endings (cstr (take 31 (first_line stream)))"
    using fgets_chars_line [of 31 stream]
    by (simp add: first_line_def strip_line_end_spec)
  ultimately show ?thesis
    by (simp add: ReadVersionFile_def strip_v_spec del: One_nat_def)
qed

lemma ReadVersionFile_take:
  "ReadVersionFile (Some (take 31 stream)) buf 32 = ReadVersionFile (Some stream) buf 32"
proof -
  have "fgets 32 (take 31 stream) = fgets 32 stream"
    by (simp add: fgets_def fgets_chars_take)
  then show ?thesis
    by (simp add: ReadVersionFile_def)
qed

lemma ReadVersionFile_total: "\<exists>opened v. ReadVersionFile marker buf 32 = Inr (opened, v)"
  by (cases marker)
    (auto simp: ReadVersionFile_def strcpy_s_def bind_err_def Let_def split: option.splits)

text \<open>
  Claim C4, as amended. When the marker file cannot be opened the version is \<^verbatim>\<open>0.0.0\<close>.
  When it opens and holds at least one character, the version is its first line, cut
  to the 31 characters one \<^verbatim>\<open>fgets\<close> into the 32-byte buffer stores and at a NUL
  character if there is one, without its trailing line-ending characters and without
  one leading \<^verbatim>\<open>v\<close>; nothing else is checked, so a marker that is no version gives its
  own text. For every marker file the call returns: no checked runtime function ends
  the process.
\<close>

theorem ReadVersionFile_result:
  "ReadVersionFile None buf 32 = Inr (False, ''0.0.0'') \<and>
   (stream \<noteq> [] \<longrightarrow>
      ReadVersionFile (Some stream) buf 32 =
        Inr (True, strip_leading_v (strip_trailing_line_endings
                     (cstr (take 31 (first_line stream)))))) \<and>
   (\<exists>opened v. ReadVersionFile marker buf 32 = Inr (opened, v))"
proof (intro conjI impI)
  show "ReadVersionFile None buf 32 = Inr (False, ''0.0.0'')"
    by (simp add: ReadVersionFile_def strcpy_s_def bind_err_def)
next
  assume "stream \<noteq> []"
  then show "ReadVersionFile (Some stream) buf 32 =
      Inr (True, strip_leading_v (strip_trailing_line_endings
                   (cstr (take 31 (first_line stream)))))"
    by (rule ReadVersionFile_opened)
next
  show "\<exists>opened v. ReadVersionFile marker buf 32 = Inr (opened, v)"
    by (rule ReadVersionFile_total)
qed

theorem ReadVersionFile_result_witness:
  "''v1.2.0'' @ [CR, LF] @ ''next'' \<noteq> [] \<and>
   ReadVersionFile None ''junk'' 32 = Inr (False, ''0.0.0'') \<and>
   ReadVersionFile (Some (''v1.2.0'' @ [CR, LF] @ ''next'')) ''junk'' 32 = Inr (True, ''1.2.0'')"
  using ReadVersionFile_result [of "''junk''" "''v1.2.0'' @ [CR, LF] @ ''next''" None]
  by (simp add: first_line_def strip_trailing_line_endings_def strip_leading_v_def cstr_def
      NUL_def LF_def CR_def)

text \<open>
  Claim C4 as it is written fails: a marker file that opens and holds a first line that
  is no version does not give \<^verbatim>\<open>0.0.0\<close>.
\<close>

theorem malformed_marker_counterexample:
  "ReadVersionFile (Some ''not a version'') [] 32 = Inr (True, ''not a version'') \<and>
   ''not a version'' \<noteq> ''0.0.0''"
  using ReadVersionFile_opened [of "''not a version''" "[]"]
  by (simp add: first_line_def strip_trailing_line_endings_def strip_leading_v_def cstr_def
      NUL_def LF_def CR_def)

lemma take_first_line:
  assumes "n < length (first_line s)"
  shows "take n (first_line s) = take n s"
proof -
  have "s = first_line s @ dropWhile (\<lambda>c. c \<noteq> LF) s"
    by (simp add: first_line_def)
  then have "take n s = take n (first_line s @ dropWhile (\<lambda>c. c \<noteq> LF) s)"
    by simp
  also have "\<dots> = take n (first_line s)"
    using assms by simp
  finally show ?thesis by simp
qed

lemma offer_update_version_file:
  "offer_update (env\<lparr>version_file := x\<rparr>) = offer_update env"
  by (intro ext) (simp add: offer_update_def Let_def cong: if_cong)

text \<open>
  Claim C9. When the first line of the marker file is longer than 31 characters, the
  version is made from its first 31 characters only (then cut at a NUL, stripped of
  trailing line-ending characters and of one leading \<^verbatim>\<open>v\<close>); and two marker files
  with such lines that agree on their first 31 characters give the same version and the
  same run of the launcher, whatever follows the 31 characters.
\<close>

theorem long_first_line_cut:
  assumes "31 < length (first_line s1)"
  shows "ReadVersionFile (Some s1) buf 32 =
           Inr (True, strip_leading_v (strip_trailing_line_endings (cstr (take 31 s1)))) \<and>
         (31 < length (first_line s2) \<and> take 31 s2 = take 31 s1 \<longrightarrow>
            ReadVersionFile (Some s2) buf 32 = ReadVersionFile (Some s1) buf 32 \<and>
            WinMain (env\<lparr>version_file := Some s2\<rparr>) = WinMain (env\<lparr>version_file := Some s1\<rparr>))"
proof (intro conjI impI)
  have "take 31 (first_line s1) = take 31 s1"
    using assms by (rule take_first_line)
  moreover have "s1 \<noteq> []"
    using assms by (auto simp: first_line_def)
  ultimately show "ReadVersionFile (Some s1) buf 32 =
      Inr (True, strip_leading_v (strip_trailing_line_endings (cstr (take 31 s1))))"
    using ReadVersionFile_opened [of s1 buf] by simp
next
  assume "31 < length (first_line s2) \<and> take 31 s2 = take 31 s1"
  then have "take 31 s2 = take 31 s1" ..
  then show "ReadVersionFile (Some s2) buf 32 = ReadVersionFile (Some s1) buf 32"
    by (metis ReadVersionFile_take)
next
  assume "31 < length (first_line s2) \<and> take 31 s2 = take 31 s1"
  then have "take 31 s2 = take 31 s1" ..
  then have "ReadVersionFile (Some s2) (stack_bytes env) 32 =
      ReadVersionFile (Some s1) (stack_bytes env) 32"
    by (metis ReadVersionFile_take)
  then show "WinMain (env\<lparr>version_file := Some s2\<rparr>) = WinMain (env\<lparr>version_file := Some s1\<rparr>)"
    by (simp add: WinMain_def offer_update_version_file cong: if_cong option.case_cong)
qed

theorem long_first_line_cut_witness:
  "31 < length (first_line ''v1.0.0-rc.1+build.2024.01.01.aaXXXXXX'') \<and>
   ReadVersionFile (Some ''v1.0.0-rc.1+build.2024.01.01.aaXXXXXX'') [] 32 =
     Inr (True, ''1.0.0-rc.1+build.2024.01.01.aa'') \<and>
   ReadVersionFile (Some ''v1.0.0-rc.1+build.2024.01.01.aaYYYYYYYY'') [] 32 =
     ReadVersionFile (Some ''v1.0.0-rc.1+build.2024.01.01.aaXXXXXX'') [] 32 \<and>
   WinMain (example_env\<lparr>version_file := Some ''v1.0.0-rc.1+build.2024.01.01.aaYYYYYYYY''\<rparr>) =
     WinMain (example_env\<lparr>version_file := Some ''v1.0.0-rc.1+build.2024.01.01.aaXXXXXX''\<rparr>)"
proof -
  have long: "31 < length (first_line ''v1.0.0-rc.1+build.2024.01.01.aaXXXXXX'')"
    by (simp add: first_line_def LF_def)
  have other: "31 < length (first_line ''v1.0.0-rc.1+build.2024.01.01.aaYYYYYYYY'') \<and>
      take 31 ''v1.0.0-rc.1+build.2024.01.01.aaYYYYYYYY'' =
      take 31 ''v1.0.0-rc.1+build.2024.01.01.aaXXXXXX''"
    by (simp add: first_line_def LF_def)
  show ?thesis
    using long other
      long_first_line_cut [OF long, of "[]" "''v1.0.0-rc.1+build.2024.01.01.aaYYYYYYYY''" example_env]
    by (simp add: first_line_def strip_trailing_line_endings_def strip_leading_v_def cstr_def
      NUL_def LF_def CR_def)
qed

section \<open>Reads and byte counts\<close>

lemma length_InternetReadFile:
  "InternetReadFile conn n = (ok, buffer, rest) \<Longrightarrow> length buffer \<le> n"
  by (induction conn n rule: InternetReadFile.induct) auto

lemma bytesRead_pos:
  assumes "length buffer \<le> BUFFER_SIZE"
  shows "(0 < (of_nat (length buffer) :: 32 word)) = (buffer \<noteq> [])"
    and "unat (of_nat (length buffer) :: 32 word) = length buffer"
proof -
  have "length buffer < 2 ^ 32"
    using assms by (simp add: BUFFER_SIZE_def)
  then show u: "unat (of_nat (length buffer) :: 32 word) = length buffer"
    by (simp add: unat_of_nat)
  show "(0 < (of_nat (length buffer) :: 32 word)) = (buffer \<noteq> [])"
  proof
    assume "0 < (of_nat (length buffer) :: 32 word)"
    then show "buffer \<noteq> []" by auto
  next
    assume "buffer \<noteq> []"
    then have "unat (of_nat (length buffer) :: 32 word) \<noteq> 0"
      using u by simp
    then show "0 < (of_nat (length buffer) :: 32 word)"
      by (simp add: word_greater_zero_iff unat_eq_0)
  qed
qed

section \<open>The update decision\<close>

lemma strcmp_eq_0_iff: "strcmp a b = 0 \<longleftrightarrow> a = b"
  by (induction a b rule: strcmp.induct) auto

text \<open>
  Claim C5. The value \<^verbatim>\<open>CheckForUpdates\<close> returns is true exactly when a release was
  found (\<^verbatim>\<open>result\<close> is \<^verbatim>\<open>TRUE\<close>) and its version is not the same string as the local
  version: \<^verbatim>\<open>strcmp\<close> is zero on equal strings only. There is no order in it: the
  remote version \<^verbatim>\<open>0.9.0\<close> against the local \<^verbatim>\<open>1.0.0\<close> gives true, and \<^verbatim>\<open>1.0.0\<close>
  against \<^verbatim>\<open>1.0.0\<close> gives false whatever the asset is.
\<close>

theorem update_wanted_iff:
  "(update_wanted result release local \<longleftrightarrow> result \<and> version release \<noteq> local) \<and>
   CheckForUpdates net local release0 =
     bind_err (fetch_release net release0)
       (\<lambda>(result, release). Inr (result \<and> version release \<noteq> local, release)) \<and>
   update_wanted True \<lparr>version = ''1.0.0'', download_url = url, filename = name\<rparr> ''1.0.0'' = False \<and>
   update_wanted True \<lparr>version = ''0.9.0'', download_url = url, filename = name\<rparr> ''1.0.0'' = True"
  by (simp add: update_wanted_def CheckForUpdates_def strcmp_eq_0_iff)

section \<open>Scanning the feed\<close>

lemmas scan_eval = scan_feed_def cstr_def NUL_def parse_tag_name_def tag_name_key_def DQUOTE_def
  browser_download_url_key_def find_exe_asset.simps(2) asset_at_def sizeof_download_url_def
  sizeof_version_def strcpy_s_def bind_err_def sizeof_filename_def

lemma strchr_append:
  "c \<notin> set pre \<Longrightarrow> strchr (pre @ c # rest) c = Some (c # rest)"
  by (induction pre) auto

lemma strstr_first:
  assumes "prefix needle r" and "\<forall>i < length pre. \<not> prefix needle (drop i (pre @ r))"
  shows "strstr (pre @ r) needle = Some r"
  using assms
proof (induction pre)
  case Nil
  then show ?case by (cases r) auto
next
  case (Cons p pre)
  from Cons.prems(2) have "\<not> prefix needle (drop 0 ((p # pre) @ r))"
    by blast
  then have here: "\<not> prefix needle (p # pre @ r)"
    by simp
  have "\<forall>i < length pre. \<not> prefix needle (drop i (pre @ r))"
  proof (intro allI impI)
    fix i assume "i < length pre"
    then have "Suc i < length (p # pre)" by simp
    with Cons.prems(2) have "\<not> prefix needle (drop (Suc i) ((p # pre) @ r))"
      by blast
    then show "\<not> prefix needle (drop i (pre @ r))" by simp
  qed
  with Cons.IH Cons.prems(1) have "strstr (pre @ r) needle = Some r"
    by blast
  with here show ?case by simp
qed

lemma strstr_prefix: "prefix needle s \<Longrightarrow> strstr s needle = Some s"
  by (cases s) auto

lemma strstr_found: "strstr (a @ needle @ b) needle \<noteq> None"
  by (induction a) (auto simp: strstr_prefix)

lemma strstr_Some_first:
  "strstr s needle = Some r \<Longrightarrow> s = pre @ r \<Longrightarrow>
     \<forall>i < length pre. \<not> prefix needle (drop i s)"
proof (induction s arbitrary: pre)
  case Nil
  then show ?case by simp
next
  case (Cons x xs)
  show ?case
  proof (cases "prefix needle (x # xs)")
    case True
    with Cons.prems(1) have "r = x # xs" by simp
    with Cons.prems(2) have "pre = []" by simp
    then show ?thesis by simp
  next
    case False
    with Cons.prems(1) have s: "strstr xs needle = Some r" by simp
    then have "length r \<le> length xs" by (rule length_strstr)
    with Cons.prems(2) obtain pre' where pre: "pre = x # pre'" "xs = pre' @ r"
      by (cases pre) auto
    from Cons.IH [OF s pre(2)] have ih: "\<forall>i < length pre'. \<not> prefix needle (drop i xs)" .
    show ?thesis
    proof (intro allI impI)
      fix i assume i: "i < length pre"
      show "\<not> prefix needle (drop i (x # xs))"
      proof (cases i)
        case 0
        with False show ?thesis by simp
      next
        case (Suc j)
        with i pre ih show ?thesis by simp
      qed
    qed
  qed
qed

lemma cstr_id: "NUL \<notin> set s \<Longrightarrow> cstr s = s"
  by (auto simp: cstr_def takeWhile_eq_all_conv)

lemma parse_tag_name_found:
  assumes doc: "doc = pre @ tag_name_key @ s1 @ [CHR '':''] @ s2 @ [DQUOTE] @ v @ [DQUOTE] @ rest"
    and first: "\<forall>i < length pre. \<not> prefix tag_name_key (drop i doc)"
    and s1: "CHR '':'' \<notin> set s1" and s2: "DQUOTE \<notin> set s2" and v: "DQUOTE \<notin> set v"
    and len: "length v < sizeof_version"
  shows "parse_tag_name doc release =
           release\<lparr>version := if v \<noteq> [] \<and> hd v = CHR ''v'' then tl v else v\<rparr>"
proof -
  let ?r1 = "tag_name_key @ s1 @ CHR '':'' # s2 @ DQUOTE # v @ DQUOTE # rest"
  have d: "doc = pre @ ?r1" using doc by simp
  have "strstr doc tag_name_key = Some ?r1"
    unfolding d by (rule strstr_first) (use first d in simp_all)
  moreover have "strchr ?r1 CHR '':'' = Some (CHR '':'' # s2 @ DQUOTE # v @ DQUOTE # rest)"
    using strchr_append [of "CHR '':''" "tag_name_key @ s1" "s2 @ DQUOTE # v @ DQUOTE # rest"] s1
    by (simp add: tag_name_key_def DQUOTE_def)
  moreover have "strchr (CHR '':'' # s2 @ DQUOTE # v @ DQUOTE # rest) DQUOTE =
      Some (DQUOTE # v @ DQUOTE # rest)"
    using strchr_append [of DQUOTE "CHR '':'' # s2" "v @ DQUOTE # rest"] s2
    by (simp add: DQUOTE_def)
  moreover have "strchr (v @ DQUOTE # rest) DQUOTE = Some (DQUOTE # rest)"
    using v by (rule strchr_append)
  ultimately show ?thesis
    using len by (simp add: parse_tag_name_def Let_def)
qed

lemma asset_at_found:
  assumes s3: "CHR '':'' \<notin> set s3" and s4: "DQUOTE \<notin> set s4" and u: "DQUOTE \<notin> set url"
    and exe: "strstr (url @ DQUOTE # rest) ''.exe'' \<noteq> None"
    and len: "length url < sizeof_download_url"
  shows "asset_at (browser_download_url_key @ s3 @ [CHR '':''] @ s4 @ [DQUOTE] @ url @ [DQUOTE] @ rest)
           release =
         (case strrchr url CHR ''/'' of
            None \<Rightarrow> Some (Inr (release\<lparr>download_url := url\<rparr>))
          | Some slash \<Rightarrow>
              Some (bind_err (strcpy_s sizeof_filename (tl slash))
                     (\<lambda>name. Inr (release\<lparr>download_url := url, filename := name\<rparr>))))"
proof -
  let ?r1 = "browser_download_url_key @ s3 @ CHR '':'' # s4 @ DQUOTE # url @ DQUOTE # rest"
  have "strchr ?r1 CHR '':'' = Some (CHR '':'' # s4 @ DQUOTE # url @ DQUOTE # rest)"
    using strchr_append [of "CHR '':''" "browser_download_url_key @ s3" "s4 @ DQUOTE # url @ DQUOTE # rest"] s3
    by (simp add: browser_download_url_key_def DQUOTE_def)
  moreover have "strchr (CHR '':'' # s4 @ DQUOTE # url @ DQUOTE # rest) DQUOTE =
      Some (DQUOTE # url @ DQUOTE # rest)"
    using strchr_append [of DQUOTE "CHR '':'' # s4" "url @ DQUOTE # rest"] s4
    by (simp add: DQUOTE_def)
  moreover have "strchr (url @ DQUOTE # rest) DQUOTE = Some (DQUOTE # rest)"
    using u by (rule strchr_append)
  ultimately show ?thesis
    using len exe by (simp add: asset_at_def Let_def split: option.split)
qed

text \<open>
  Claim C7. Take a feed in which the first \<^verbatim>\<open>"tag_name"\<close> is followed, after text
  without a colon, by a colon and, after text without a quote, by the quoted value
  \<^verbatim>\<open>v2.3.0\<close>, and in which the first \<^verbatim>\<open>"browser_download_url"\<close> is followed in the same
  way by the quoted value \<^verbatim>\<open>https://x/y/app-2.3.0.exe\<close>; no byte of the feed is NUL.
  Then the scan finds the version \<^verbatim>\<open>2.3.0\<close>, that URL and the file name
  \<^verbatim>\<open>app-2.3.0.exe\<close>, whatever \<^verbatim>\<open>release\<close> held before and whatever else the feed
  holds; and so does the one read of \<^verbatim>\<open>CheckForUpdates\<close> when the feed fits its buffer.
\<close>

theorem scan_feed_v2_3_0:
  assumes doc_tag:
      "doc = pre @ tag_name_key @ s1 @ [CHR '':''] @ s2 @ [DQUOTE] @ ''v2.3.0'' @ [DQUOTE] @ rest"
    and first_tag: "\<forall>i < length pre. \<not> prefix tag_name_key (drop i doc)"
    and s1: "CHR '':'' \<notin> set s1" and s2: "DQUOTE \<notin> set s2"
    and doc_url:
      "doc = pre' @ browser_download_url_key @ s3 @ [CHR '':''] @ s4 @ [DQUOTE] @
             ''https://x/y/app-2.3.0.exe'' @ [DQUOTE] @ rest'"
    and first_url: "\<forall>i < length pre'. \<not> prefix browser_download_url_key (drop i doc)"
    and s3: "CHR '':'' \<notin> set s3" and s4: "DQUOTE \<notin> set s4"
    and nul: "NUL \<notin> set doc"
  shows "scan_feed doc release =
           Inr (True, \<lparr>version = ''2.3.0'', download_url = ''https://x/y/app-2.3.0.exe'',
                       filename = ''app-2.3.0.exe''\<rparr>) \<and>
         (length doc < BUFFER_SIZE \<longrightarrow>
            fetch_release \<lparr>session_opens = True, url_opens = True, reads = Read_ok doc # later\<rparr>
              release =
            Inr (True, \<lparr>version = ''2.3.0'', download_url = ''https://x/y/app-2.3.0.exe'',
                        filename = ''app-2.3.0.exe''\<rparr>))"
proof -
  let ?url = "''https://x/y/app-2.3.0.exe''"
  let ?occ = "browser_download_url_key @ s3 @ [CHR '':''] @ s4 @ [DQUOTE] @ ?url @ [DQUOTE] @ rest'"
  have tag: "parse_tag_name doc release = release\<lparr>version := ''2.3.0''\<rparr>"
    using parse_tag_name_found [OF doc_tag first_tag s1 s2, of release]
    by (simp add: DQUOTE_def sizeof_version_def)
  have "strstr doc browser_download_url_key = Some ?occ"
    by (subst doc_url, rule strstr_first) (use first_url doc_url in \<open>simp_all\<close>)
  moreover have "strstr (?url @ DQUOTE # rest') ''.exe'' \<noteq> None"
    using strstr_found [of "''https://x/y/app-2.3.0''" "''.exe''" "DQUOTE # rest'"]
    by simp
  then have "asset_at ?occ (release\<lparr>version := ''2.3.0''\<rparr>) =
      Some (Inr (release\<lparr>version := ''2.3.0'', download_url := ?url,
                         filename := ''app-2.3.0.exe''\<rparr>))"
    using asset_at_found [OF s3 s4, of ?url rest' "release\<lparr>version := ''2.3.0''\<rparr>"]
    by (simp add: DQUOTE_def sizeof_download_url_def sizeof_filename_def strcpy_s_def bind_err_def)
  ultimately have "find_exe_asset (strstr doc browser_download_url_key)
      (release\<lparr>version := ''2.3.0''\<rparr>) =
      Inr (True, release\<lparr>version := ''2.3.0'', download_url := ?url,
                         filename := ''app-2.3.0.exe''\<rparr>)"
    by (simp add: find_exe_asset.simps(2) bind_err_def)
  then have scan: "scan_feed doc release =
      Inr (True, \<lparr>version = ''2.3.0'', download_url = ?url, filename = ''app-2.3.0.exe''\<rparr>)"
    using tag nul by (cases release) (simp add: scan_feed_def cstr_id)
  have "fetch_release \<lparr>session_opens = True, url_opens = True, reads = Read_ok doc # later\<rparr>
      release = scan_feed doc release" if fits: "length doc < BUFFER_SIZE"
  proof -
    have "doc \<noteq> []"
      using doc_tag by simp
    moreover have "length doc \<le> BUFFER_SIZE"
      using fits by simp
    ultimately have "0 < (of_nat (length doc) :: 32 word)"
      by (simp add: bytesRead_pos)
    moreover have "InternetReadFile (Read_ok doc # later) (BUFFER_SIZE - 1) = (True, doc, later)"
      using fits by simp
    ultimately show ?thesis
      by (simp add: fetch_release_def)
  qed
  with scan show ?thesis
    by simp
qed

theorem scan_feed_v2_3_0_witness:
  "scan_feed
     ''{\"tag_name\": \"v2.3.0\", \"assets\": [{\"browser_download_url\": \"https://x/y/app-2.3.0.exe\"}]}''
     no_release =
   Inr (True, \<lparr>version = ''2.3.0'', download_url = ''https://x/y/app-2.3.0.exe'',
               filename = ''app-2.3.0.exe''\<rparr>) \<and>
   fetch_release
     \<lparr>session_opens = True, url_opens = True,
      reads = [Read_ok ''{\"tag_name\": \"v2.3.0\", \"assets\": [{\"browser_download_url\": \"https://x/y/app-2.3.0.exe\"}]}'']\<rparr>
     no_release =
   Inr (True, \<lparr>version = ''2.3.0'', download_url = ''https://x/y/app-2.3.0.exe'',
               filename = ''app-2.3.0.exe''\<rparr>)"
proof -
  let ?doc = "''{\"tag_name\": \"v2.3.0\", \"assets\": [{\"browser_download_url\": \"https://x/y/app-2.3.0.exe\"}]}''"
  let ?rest = "'', \"assets\": [{\"browser_download_url\": \"https://x/y/app-2.3.0.exe\"}]}''"
  let ?pre' = "''{\"tag_name\": \"v2.3.0\", \"assets\": [{''"
  have doc_tag: "?doc = ''{'' @ tag_name_key @ [] @ [CHR '':''] @ '' '' @ [DQUOTE] @ ''v2.3.0'' @
      [DQUOTE] @ ?rest"
    by (simp add: tag_name_key_def DQUOTE_def)
  have first_tag: "\<forall>i < length ''{''. \<not> prefix tag_name_key (drop i ?doc)"
    by (rule strstr_Some_first [where r = "tl ?doc"]) (simp_all add: tag_name_key_def DQUOTE_def)
  have doc_url: "?doc = ?pre' @ browser_download_url_key @ [] @ [CHR '':''] @ '' '' @ [DQUOTE] @
      ''https://x/y/app-2.3.0.exe'' @ [DQUOTE] @ ''}]}''"
    by (simp add: browser_download_url_key_def DQUOTE_def)
  have first_url: "\<forall>i < length ?pre'. \<not> prefix browser_download_url_key (drop i ?doc)"
    by (rule strstr_Some_first [where r = "drop (length ?pre') ?doc"])
      (simp_all add: browser_download_url_key_def DQUOTE_def)
  have colon: "CHR '':'' \<notin> set []" and quote: "DQUOTE \<notin> set '' ''" and nul: "NUL \<notin> set ?doc"
    by (simp_all add: DQUOTE_def NUL_def)
  have fits: "length ?doc < BUFFER_SIZE"
    by (simp add: BUFFER_SIZE_def)
  from scan_feed_v2_3_0 [OF doc_tag first_tag colon quote doc_url first_url colon quote nul,
      of no_release "[]"] fits
  show ?thesis
    by simp
qed

text \<open>
  What the asset loop does at the first \<^verbatim>\<open>"browser_download_url"\<close>: its quoted value,
  when shorter than 512 bytes, is chosen as soon as \<^verbatim>\<open>.exe\<close> stands somewhere from the
  start of the value to the end of the buffer, in the value or after it.
\<close>

lemma first_value_accepted:
  assumes doc:
      "doc = pre @ browser_download_url_key @ s3 @ [CHR '':''] @ s4 @ [DQUOTE] @ url @ [DQUOTE] @ rest"
    and first: "\<forall>i < length pre. \<not> prefix browser_download_url_key (drop i doc)"
    and s3: "CHR '':'' \<notin> set s3" and s4: "DQUOTE \<notin> set s4" and u: "DQUOTE \<notin> set url"
    and len: "length url < sizeof_download_url"
    and exe: "strstr (url @ DQUOTE # rest) ''.exe'' \<noteq> None"
    and found: "find_exe_asset (strstr doc browser_download_url_key) release = Inr (result, release')"
  shows "result \<and> download_url release' = url"
proof -
  let ?occ = "browser_download_url_key @ s3 @ [CHR '':''] @ s4 @ [DQUOTE] @ url @ [DQUOTE] @ rest"
  have "strstr doc browser_download_url_key = Some ?occ"
    by (subst doc, rule strstr_first) (use first doc in \<open>simp_all\<close>)
  with found asset_at_found [OF s3 s4 u exe len, of release] show ?thesis
    by (auto simp: find_exe_asset.simps(2) bind_err_def strcpy_s_def
        split: option.splits if_splits)
qed

text \<open>
  Claim C6 describes what the code does not do. The test of line 137 is
  \<^verbatim>\<open>strstr(url_start, ".exe")\<close>, and \<^verbatim>\<open>url_start\<close> is not terminated at the closing
  quote: the test looks for \<^verbatim>\<open>.exe\<close> from the start of the value to the end of the
  buffer. So an asset that is no \<^verbatim>\<open>.exe\<close> is chosen when a later asset is one, and
  also when no asset is one and \<^verbatim>\<open>.exe\<close> stands anywhere further on.
\<close>

theorem exe_test_example:
  "scan_feed zip_then_exe_feed no_release =
     Inr (True, \<lparr>version = ''1.3.0'', download_url = ''https://x/y/notes.zip'',
                 filename = ''notes.zip''\<rparr>) \<and>
   scan_feed zip_only_feed no_release =
     Inr (True, \<lparr>version = ''1.3.0'', download_url = ''https://x/y/notes.zip'',
                 filename = ''notes.zip''\<rparr>)"
  by (simp add: scan_eval zip_then_exe_feed_def zip_only_feed_def no_release_def)

section \<open>The runs of the launcher\<close>

lemma fgets_chars_Cons:
  "fgets_chars n (c # cs) =
     (if n = 0 then [] else if c = LF then [c] else c # fgets_chars (n - 1) cs)"
  by (cases n) auto

lemma fgets_chars_Nil2: "fgets_chars n [] = []"
  by (cases n) auto

lemmas run_eval = WinMain_def GetAppDirectory_def MAX_PATH_LEN_def
  BACKSLASH_def cut_at_def sprintf_s_def VERSION_FILE_def MAIN_EXE_def ReadVersionFile_def fgets_def
  LF_def CR_def strip_line_end_eq is_line_end_def CheckForUpdates_def fetch_release_def BUFFER_SIZE_def
  update_wanted_def offer_update_def ShowUpdateDialog_def DownloadFile_def LaunchInstaller_def
  LaunchMainApp_def ShowError_def download_loop.simps fgets_chars_Cons fgets_chars_Nil2

lemma example_run:
  "WinMain example_env =
     Inr ([example_dialog,
           Download ''https://x/y/app-1.3.0.exe'' example_installer_path (Some ''MZPE'') [2, 4],
           Installer_process example_cmdline], 0)"
  by (simp add: run_eval scan_eval example_env_def example_feed_def example_dialog_def
      example_installer_path_def example_cmdline_def)

lemma example_run_installer_fails:
  "WinMain (example_env\<lparr>installer_starts := False\<rparr>) =
     Inr ([example_dialog,
           Download ''https://x/y/app-1.3.0.exe'' example_installer_path (Some ''MZPE'') [2, 4],
           Installer_process example_cmdline,
           Error_box ''Failed to launch installer'',
           example_main_app_process], 0)"
  by (simp add: run_eval scan_eval example_env_def example_feed_def example_dialog_def
      example_installer_path_def example_cmdline_def example_main_app_process_def)

lemma offer_update_cases:
  assumes "offer_update env current_version release = Inr (events, returned)"
  shows "(\<exists>m. events = [Update_dialog m] \<and> returned = None \<and> pressed env \<noteq> IDYES) \<or>
         (\<exists>m u p f s. events = [Update_dialog m, Download u p f s,
                                  Error_box ''Failed to download update'']
             \<and> returned = None \<and> pressed env = IDYES) \<or>
         (\<exists>m u p f s c. events = [Update_dialog m, Download u p f s, Installer_process c]
             \<and> returned = Some 0 \<and> pressed env = IDYES \<and> installer_starts env) \<or>
         (\<exists>m u p f s c.
             events = [Update_dialog m, Download u p f s, Installer_process c,
                       Error_box ''Failed to launch installer'']
             \<and> returned = None \<and> pressed env = IDYES \<and> \<not> installer_starts env)"
  using assms
  by (auto simp: offer_update_def ShowUpdateDialog_def LaunchInstaller_def bind_err_def Let_def
      ShowError_def split: sum.splits if_splits prod.splits)

lemma WinMain_cases:
  assumes "WinMain env = Inr (events, code)"
  shows "(events = [Error_box ''Failed to get application directory''] \<and> code = 1) \<or>
         (\<exists>current_version release.
            offer_update env current_version release = Inr (events, Some code)) \<or>
         (\<exists>before exe dir.
            (before = [] \<or>
             (\<exists>current_version release.
                offer_update env current_version release = Inr (before, None))) \<and>
            events = before @ [Main_app_process exe dir] @
              (if main_app_starts env then [] else [Error_box (''Failed to launch '' @ MAIN_EXE)]) \<and>
            code = (if main_app_starts env then 0 else 1))"
  using assms
  by (auto simp: WinMain_def bind_err_def LaunchMainApp_def ShowError_def Let_def
      split: option.splits sum.splits if_splits prod.splits)

text \<open>
  Claim C1 as it is written fails: when \<^verbatim>\<open>CreateProcessA\<close> cannot start the installer,
  the launcher shows the error and goes on to line 326, where it starts the main
  application.
\<close>

theorem installer_failure_counterexample:
  "WinMain (example_env\<lparr>installer_starts := False\<rparr>) =
     Inr ([example_dialog,
           Download ''https://x/y/app-1.3.0.exe'' example_installer_path (Some ''MZPE'') [2, 4],
           Installer_process example_cmdline,
           Error_box ''Failed to launch installer'',
           example_main_app_process], 0) \<and>
   example_main_app_process =
     Main_app_process (''C:'' @ [BACKSLASH] @ ''App'' @ [BACKSLASH] @ ''workspace.exe'')
       (''C:'' @ [BACKSLASH] @ ''App'')"
  using example_run_installer_fails by (simp add: example_main_app_process_def)

text \<open>
  Claim C1, as amended. In every run that reaches the launch of the installer: when the
  installer starts, the launcher returns 0 at once, the launch of the installer is the
  last thing it does and it never starts the main application; when the installer does
  not start, the launcher shows \<^verbatim>\<open>Failed to launch installer\<close> and then starts the main
  application, as after every other failure, and its exit code is that of this launch.
\<close>

theorem installer_launch_outcomes:
  assumes "WinMain env = Inr (events, code)" and "Installer_process cmdline \<in> set events"
  shows "(installer_starts env \<longrightarrow>
            code = 0 \<and> last events = Installer_process cmdline \<and>
            (\<forall>exe dir. Main_app_process exe dir \<notin> set events)) \<and>
         (\<not> installer_starts env \<longrightarrow>
            (\<exists>m u p f s exe dir.
               events = [Update_dialog m, Download u p f s, Installer_process cmdline,
                         Error_box ''Failed to launch installer'', Main_app_process exe dir] @
                 (if main_app_starts env then []
                  else [Error_box (''Failed to launch '' @ MAIN_EXE)]) \<and>
               code = (if main_app_starts env then 0 else 1)))"
proof -
  consider
    (no_dir) "events = [Error_box ''Failed to get application directory'']"
  | (returned) current_version release where
      "offer_update env current_version release = Inr (events, Some code)"
  | (direct) exe dir where
      "events = [Main_app_process exe dir] @
         (if main_app_starts env then [] else [Error_box (''Failed to launch '' @ MAIN_EXE)])"
  | (fell_through) before exe dir current_version release where
      "offer_update env current_version release = Inr (before, None)"
      "events = before @ [Main_app_process exe dir] @
         (if main_app_starts env then [] else [Error_box (''Failed to launch '' @ MAIN_EXE)])"
      "code = (if main_app_starts env then 0 else 1)"
    using WinMain_cases [OF assms(1)] by fastforce
  then show ?thesis
  proof cases
    case no_dir
    with assms(2) show ?thesis by simp
  next
    case returned
    from offer_update_cases [OF this] assms(2) show ?thesis
      by auto
  next
    case direct
    with assms(2) show ?thesis by (simp split: if_splits)
  next
    case fell_through
    from offer_update_cases [OF fell_through(1)] assms(2) fell_through(2,3) show ?thesis
      by (auto split: if_splits)
  qed
qed

theorem installer_launch_outcomes_witness:
  "WinMain example_env =
     Inr ([example_dialog,
           Download ''https://x/y/app-1.3.0.exe'' example_installer_path (Some ''MZPE'') [2, 4],
           Installer_process example_cmdline], 0) \<and>
   Installer_process example_cmdline \<in>
     set [example_dialog,
          Download ''https://x/y/app-1.3.0.exe'' example_installer_path (Some ''MZPE'') [2, 4],
          Installer_process example_cmdline] \<and>
   installer_starts example_env \<and>
   example_main_app_process \<notin>
     set [example_dialog,
          Download ''https://x/y/app-1.3.0.exe'' example_installer_path (Some ''MZPE'') [2, 4],
          Installer_process example_cmdline]"
proof -
  have mem: "Installer_process example_cmdline \<in>
     set [example_dialog,
          Download ''https://x/y/app-1.3.0.exe'' example_installer_path (Some ''MZPE'') [2, 4],
          Installer_process example_cmdline]"
    by simp
  have starts: "installer_starts example_env"
    by (simp add: example_env_def)
  from installer_launch_outcomes [OF example_run mem] starts example_run mem
  show ?thesis
    by (simp add: example_main_app_process_def)
qed

text \<open>
  Claim C2 describes what the code does not do. A read that fails after the connection
  and the destination file were opened ends the loop of \<^verbatim>\<open>DownloadFile\<close> as the end of
  the data does, and line 199 sets \<^verbatim>\<open>result = TRUE\<close>: the download is reported as
  successful, the file holds the bytes that arrived before the failure, and the
  launcher starts the installer from that file.
\<close>

theorem read_failure_example:
  "DownloadFile broken_net True True = (True, Some ''MZ'', [2]) \<and>
   WinMain (example_env\<lparr>installer_net := broken_net\<rparr>) =
     Inr ([example_dialog,
           Download ''https://x/y/app-1.3.0.exe'' example_installer_path (Some ''MZ'') [2],
           Installer_process example_cmdline], 0)"
  by (simp add: run_eval scan_eval example_env_def example_feed_def example_dialog_def
      example_installer_path_def example_cmdline_def broken_net_def)

section \<open>The download\<close>

lemma download_loop_eq:
  "download_loop conn hwnd dest totalBytes shown =
     (dest @ concat (chunks_read conn),
      totalBytes + of_nat (length (concat (chunks_read conn))),
      shown @ (if hwnd then reports totalBytes (chunks_read conn) else []))"
proof (induction conn hwnd dest totalBytes shown rule: download_loop.induct)
  case (1 conn hwnd dest totalBytes shown)
  obtain ok buffer rest where r: "InternetReadFile conn BUFFER_SIZE = (ok, buffer, rest)"
    by (cases "InternetReadFile conn BUFFER_SIZE") auto
  then have len: "length buffer \<le> BUFFER_SIZE"
    by (rule length_InternetReadFile)
  note b = bytesRead_pos [OF len]
  show ?case
  proof (cases "ok \<and> buffer \<noteq> []")
    case True
    then have c: "chunks_read conn = buffer # chunks_read rest"
      using r by (subst chunks_read.simps) simp
    have "download_loop conn hwnd dest totalBytes shown =
        download_loop rest hwnd (dest @ buffer) (totalBytes + of_nat (length buffer))
          (if hwnd then shown @ [totalBytes + of_nat (length buffer)] else shown)"
      using r True b by (subst download_loop.simps) (simp add: Let_def)
    also have "\<dots> = (dest @ buffer @ concat (chunks_read rest),
        totalBytes + of_nat (length buffer) + of_nat (length (concat (chunks_read rest))),
        (if hwnd then shown @ [totalBytes + of_nat (length buffer)] else shown) @
        (if hwnd then reports (totalBytes + of_nat (length buffer)) (chunks_read rest) else []))"
      using "1.IH" [OF r [symmetric] refl refl _ refl refl refl] True b
      by simp
    finally show ?thesis
      by (simp add: c add.assoc)
  next
    case False
    then have c: "chunks_read conn = []"
      using r by (subst chunks_read.simps) auto
    have "download_loop conn hwnd dest totalBytes shown = (dest, totalBytes, shown)"
      using r False b by (subst download_loop.simps) (auto simp: Let_def)
    then show ?thesis
      by (simp add: c)
  qed
qed

lemma concat_chunks_read: "concat (chunks_read conn) = delivered conn"
proof (induction conn rule: chunks_read.induct)
  case (1 conn)
  show ?case
  proof (cases conn)
    case Nil
    then show ?thesis by (subst chunks_read.simps) simp
  next
    case (Cons r rs)
    show ?thesis
    proof (cases r)
      case Read_fail
      with Cons show ?thesis by (subst chunks_read.simps) simp
    next
      case (Read_ok bytes)
      show ?thesis
      proof (cases "bytes = []")
        case True
        with Cons Read_ok show ?thesis by (subst chunks_read.simps) simp
      next
        case False
        define rest where
          "rest = (if length bytes \<le> BUFFER_SIZE then rs else Read_ok (drop BUFFER_SIZE bytes) # rs)"
        have r: "InternetReadFile conn BUFFER_SIZE = (True, take BUFFER_SIZE bytes, rest)"
          using Cons Read_ok by (simp add: rest_def)
        have ne: "take BUFFER_SIZE bytes \<noteq> []"
          using False by (simp add: BUFFER_SIZE_def)
        have "concat (chunks_read rest) = delivered rest"
          using "1.IH" [OF r [symmetric] refl] ne by simp
        moreover have "delivered rest = drop BUFFER_SIZE bytes @ delivered rs"
          by (simp add: rest_def)
        moreover have "chunks_read conn = take BUFFER_SIZE bytes # chunks_read rest"
          using r ne by (subst chunks_read.simps) simp
        ultimately show ?thesis
          using Cons Read_ok False by simp
      qed
    qed
  qed
qed

lemma length_reports: "length (reports t cs) = length cs"
  by (induction cs arbitrary: t) simp_all

lemma reports_nth:
  "i < length cs \<Longrightarrow> reports t cs ! i = t + of_nat (length (concat (take (Suc i) cs)))"
proof (induction cs arbitrary: t i)
  case Nil
  then show ?case by simp
next
  case (Cons c cs)
  show ?case
  proof (cases i)
    case 0
    then show ?thesis by simp
  next
    case (Suc j)
    with Cons.prems have "j < length cs" by simp
    from Cons.IH [OF this, of "t + of_nat (length c)"] Suc show ?thesis
      by (simp add: add.assoc)
  qed
qed

lemma sorted_reports:
  "unat t + length (concat cs) < 2 ^ 32 \<Longrightarrow>
     sorted (map unat (reports t cs)) \<and> (\<forall>x \<in> set (reports t cs). unat t \<le> unat x)"
proof (induction cs arbitrary: t)
  case Nil
  then show ?case by simp
next
  case (Cons c cs)
  have u: "unat (t + of_nat (length c)) = unat t + length c"
    using Cons.prems by (simp add: unat_word_ariths unat_of_nat)
  with Cons.prems have "unat (t + of_nat (length c)) + length (concat cs) < 2 ^ 32"
    by simp
  from Cons.IH [OF this] u show ?case
    by auto
qed

lemma DownloadFile_eq:
  "DownloadFile net file_opens hwnd =
     (if session_opens net \<and> url_opens net \<and> file_opens
      then (True, Some (concat (chunks_read (reads net))),
            if hwnd then reports 0 (chunks_read (reads net)) else [])
      else (False, None, []))"
  by (simp add: DownloadFile_def download_loop_eq)

text \<open>
  The reads have no part in the value \<^verbatim>\<open>DownloadFile\<close> returns: it is \<^verbatim>\<open>TRUE\<close> as
  soon as the session, the URL and the destination file were opened.
\<close>

lemma DownloadFile_returns:
  "fst (DownloadFile net file_opens hwnd) \<longleftrightarrow> session_opens net \<and> url_opens net \<and> file_opens"
  by (simp add: DownloadFile_eq)

text \<open>
  Claim C10. The count given to the progress window after each write is a 32-bit
  value: after the write number \<open>i + 1\<close> it is the number of bytes written to the
  file so far, modulo \<open>2 ^ 32\<close>.
\<close>

theorem progress_count_wraps:
  assumes "DownloadFile net file_opens True = (True, file, shown)"
  shows "file = Some (concat (chunks_read (reads net))) \<and>
         length shown = length (chunks_read (reads net)) \<and>
         (\<forall>i < length shown.
            unat (shown ! i) =
              length (concat (take (Suc i) (chunks_read (reads net)))) mod 2 ^ 32)"
  using assms
  by (auto simp: DownloadFile_eq length_reports reports_nth unat_of_nat split: if_splits)

theorem progress_count_wraps_witness:
  "DownloadFile example_net True True = (True, Some ''MZPE'', [2, 4]) \<and>
   chunks_read (reads example_net) = [''MZ'', ''PE''] \<and>
   unat ([2, 4 :: 32 word] ! 1) = length (concat (take 2 [''MZ'', ''PE''])) mod 2 ^ 32"
proof -
  have d: "DownloadFile example_net True True = (True, Some ''MZPE'', [2, 4])"
    by (simp add: DownloadFile_def download_loop.simps BUFFER_SIZE_def example_net_def)
  have c: "chunks_read (reads example_net) = [''MZ'', ''PE'']"
    by (simp add: chunks_read.simps BUFFER_SIZE_def example_net_def)
  from progress_count_wraps [OF d] d c show ?thesis
    by simp
qed

text \<open>
  Claim C8, as amended. In every download that reports success the destination file
  holds exactly the bytes the source delivered, whatever the sequence of reads; and
  when these are fewer than \<open>2 ^ 32\<close> bytes, the counts given to the progress window
  never decrease.
\<close>

theorem download_complete:
  assumes "DownloadFile net file_opens hwnd = (True, file, shown)"
  shows "file = Some (delivered (reads net)) \<and>
         (length (delivered (reads net)) < 2 ^ 32 \<longrightarrow> sorted (map unat shown))"
proof -
  have "length (delivered (reads net)) < 2 ^ 32 \<Longrightarrow>
      sorted (map unat (reports 0 (chunks_read (reads net))))"
    using sorted_reports [of 0 "chunks_read (reads net)"]
    by (simp add: concat_chunks_read)
  with assms show ?thesis
    by (auto simp: DownloadFile_eq concat_chunks_read split: if_splits)
qed

theorem download_complete_witness:
  "DownloadFile example_net True True = (True, Some ''MZPE'', [2, 4]) \<and>
   delivered (reads example_net) = ''MZPE'' \<and>
   length (delivered (reads example_net)) < 2 ^ 32 \<and>
   sorted (map unat [2, 4 :: 32 word])"
proof -
  have d: "DownloadFile example_net True True = (True, Some ''MZPE'', [2, 4])"
    by (simp add: DownloadFile_def download_loop.simps BUFFER_SIZE_def example_net_def)
  have l: "delivered (reads example_net) = ''MZPE''"
    by (simp add: example_net_def)
  from download_complete [OF d] d l show ?thesis
    by simp
qed

lemma chunks_read_replicate:
  assumes "c \<noteq> []" and "length c \<le> BUFFER_SIZE"
  shows "chunks_read (replicate n (Read_ok c)) = replicate n c"
proof (induction n)
  case 0
  show ?case by (subst chunks_read.simps) simp
next
  case (Suc n)
  then show ?case
    using assms by (subst chunks_read.simps) simp
qed

lemma four_gib_chunks:
  "chunks_read (reads four_gib_net) = replicate 524288 (replicate 8192 (CHR ''a''))"
  by (simp add: four_gib_net_def chunks_read_replicate BUFFER_SIZE_def)

lemma concat_replicate_replicate:
  "concat (replicate n (replicate k x)) = replicate (n * k) x"
  by (induction n) (simp_all add: replicate_add)

text \<open>
  Claim C8 as it is written fails on a download of 4 GiB: \<^verbatim>\<open>totalBytes\<close> is a
  \<^verbatim>\<open>DWORD\<close>, so the count shown after the last write is 0, after 4294959104 the
  write before.
\<close>

theorem four_gib_counterexample:
  "DownloadFile four_gib_net True True =
     (True, Some (replicate (2 ^ 32) (CHR ''a'')),
      reports 0 (replicate 524288 (replicate 8192 (CHR ''a'')))) \<and>
   unat (reports 0 (replicate 524288 (replicate 8192 (CHR ''a''))) ! 524286) = 4294959104 \<and>
   unat (reports 0 (replicate 524288 (replicate 8192 (CHR ''a''))) ! 524287) = 0 \<and>
   \<not> sorted (map unat (reports 0 (replicate 524288 (replicate 8192 (CHR ''a'')))))"
proof -
  let ?cs = "replicate 524288 (replicate 8192 (CHR ''a''))"
  let ?shown = "reports 0 ?cs"
  have f: "concat ?cs = replicate (2 ^ 32) (CHR ''a'')"
    by (simp only: concat_replicate_replicate) simp
  have d: "DownloadFile four_gib_net True True =
      (True, Some (replicate (2 ^ 32) (CHR ''a'')), ?shown)"
    by (simp add: DownloadFile_eq four_gib_chunks f) (simp add: four_gib_net_def)
  have a: "unat (?shown ! 524286) = 4294959104"
    by (subst reports_nth) (simp_all add: concat_replicate_replicate unat_of_nat)
  have b: "unat (?shown ! 524287) = 0"
    by (subst reports_nth) (simp_all add: concat_replicate_replicate unat_of_nat)
  have "\<not> sorted (map unat ?shown)"
  proof
    assume "sorted (map unat ?shown)"
    then have "map unat ?shown ! 524286 \<le> map unat ?shown ! 524287"
      by (rule sorted_nth_mono) (simp_all add: length_reports)
    then show False
      using a b by (simp add: length_reports)
  qed
  with d a b show ?thesis
    by simp
qed

section \<open>A feed without a tag\<close>

text \<open>
  On a feed without \<^verbatim>\<open>"tag_name"\<close> the asset loop alone decides the result, and the
  version of the release is what \<^verbatim>\<open>release\<close> held before the call.
\<close>

lemma scan_feed_untagged:
  assumes "strstr (cstr bytes) tag_name_key = None"
  shows "scan_feed bytes release =
           find_exe_asset (strstr (cstr bytes) browser_download_url_key) release"
  using assms by (simp add: scan_feed_def parse_tag_name_def)

lemma asset_at_version:
  "asset_at browser_download release = Some (Inr release') \<Longrightarrow> version release' = version release"
  by (auto simp: asset_at_def Let_def bind_err_def strcpy_s_def split: option.splits if_splits)

lemma find_exe_asset_version:
  "find_exe_asset p release = Inr (result, release') \<Longrightarrow> version release' = version release"
proof (induction p release rule: find_exe_asset.induct)
  case (1 release)
  then show ?case by simp
next
  case (2 browser_download release)
  show ?case
  proof (cases "asset_at browser_download release")
    case None
    with 2 show ?thesis by (simp add: find_exe_asset.simps(2))
  next
    case (Some found)
    with "2.prems" obtain r where "found = Inr r" "release' = r"
      by (cases found) (auto simp: find_exe_asset.simps(2) bind_err_def)
    with Some asset_at_version show ?thesis by blast
  qed
qed

lemma untagged_version:
  assumes "strstr (cstr bytes) tag_name_key = None"
    and "scan_feed bytes release = Inr (result, release')"
  shows "version release' = version release"
  using assms find_exe_asset_version by (simp add: scan_feed_untagged)

text \<open>
  Claim C3 describes what the code does not do. \<^verbatim>\<open>result\<close> is set where the asset is
  found and nowhere depends on the tag: on a feed without \<^verbatim>\<open>tag_name\<close> and with an
  \<^verbatim>\<open>.exe\<close> asset the release is found with the empty version it had before the call,
  the empty version differs from the local one, and the launcher offers the update
  to the version with no name, downloads it and starts the installer.
\<close>

theorem untagged_feed_example:
  "fetch_release \<lparr>session_opens = True, url_opens = True, reads = [Read_ok untagged_feed]\<rparr>
     no_release =
     Inr (True, \<lparr>version = [], download_url = ''https://x/y/app-1.3.0.exe'',
                 filename = ''app-1.3.0.exe''\<rparr>) \<and>
   WinMain (example_env\<lparr>feed :=
       \<lparr>session_opens = True, url_opens = True, reads = [Read_ok untagged_feed]\<rparr>\<rparr>) =
     Inr ([Update_dialog (''A new version  is available.'' @ [LF] @
                          ''Current version: 1.2.0'' @ [LF, LF] @ ''Update now?''),
           Download ''https://x/y/app-1.3.0.exe'' example_installer_path (Some ''MZPE'') [2, 4],
           Installer_process example_cmdline], 0)"
  by (simp add: run_eval scan_eval example_env_def example_installer_path_def example_cmdline_def
      untagged_feed_def no_release_def)

end
